theory Spec2Isabelle
  imports Main "HOL-Library.Word"
begin

section \<open>Identifiers and page contents\<close>

text \<open>
  \<open>page_id_t\<close> and \<open>frame_id_t\<close> are integer typedefs of the repository's
  configuration header. Page ids are modelled as integers; frame ids index the frame
  array \<open>pages_\<close> and only ever come from the constructor's loop \<open>0 .. pool_size - 1\<close>,
  so they are natural numbers. A page's buffer is a list of bytes.
\<close>

type_synonym page_id_t = int
type_synonym frame_id_t = nat
type_synonym page_data = "8 word list"

definition INVALID_PAGE_ID :: page_id_t where
  \<comment> \<open>Modelled from the spec: the configuration header with this constant is not among the
      sources; the spec calls it a reserved sentinel page id, and BusTub defines it as -1.\<close>
  "INVALID_PAGE_ID = - 1"

section \<open>The frame: class Page\<close>

text \<open>
  The pin count is compared with \<open><= 0\<close> in the source, so it is a signed counter, a C++
  \<open>int\<close> of 32 bits. It is modelled as an integer, and every \<open>++\<close> of the source wraps
  around as the two's-complement machine increment does: \<open>2147483647 + 1\<close> is
  \<open>-2147483648\<close>. The only \<open>--\<close> (in \<open>UnpinPageImpl\<close>) is reached with a positive count
  and cannot overflow.
\<close>

definition wrap_int32 :: "int \<Rightarrow> int" where
  "wrap_int32 x = (x + 2147483648) mod 4294967296 - 2147483648"

definition is_int32 :: "int \<Rightarrow> bool" where
  "is_int32 x \<longleftrightarrow> - 2147483648 \<le> x \<and> x < 2147483648"

record Page =
  data :: page_data
  page_id :: page_id_t
  pin_count :: int
  is_dirty :: bool

definition ResetMemory :: "Page \<Rightarrow> Page" where
  \<comment> \<open>Modelled from the spec: the Page class is not among the sources; resetting zeroes
      every byte of the frame's buffer and leaves its size alone.\<close>
  "ResetMemory pg = pg\<lparr>data := replicate (length (data pg)) 0\<rparr>"

definition Page_new :: "nat \<Rightarrow> Page" where
  \<comment> \<open>Modelled from the spec: a frame is born unbound, unpinned, clean and zeroed; the
      argument is the configured page size.\<close>
  "Page_new page_size =
     \<lparr>data = replicate page_size 0, page_id = INVALID_PAGE_ID, pin_count = 0, is_dirty = False\<rparr>"

section \<open>The Disk Manager (external collaborator)\<close>

datatype disk_call =
    ReadPageCall page_id_t
  | WritePageCall page_id_t page_data
  | AllocatePageCall
  | DeallocatePageCall page_id_t

record DiskManager =
  dm_store :: "(page_id_t \<times> page_data) list"
  dm_next_page_id :: page_id_t
  dm_calls :: "disk_call list"

definition WritePage :: "DiskManager \<Rightarrow> page_id_t \<Rightarrow> page_data \<Rightarrow> DiskManager" where
  \<comment> \<open>Modelled from the spec: the Disk Manager is not among the sources; a write makes the
      buffer the contents of the page. Every call is appended to \<open>dm_calls\<close>.\<close>
  "WritePage d p buf =
     d\<lparr>dm_store := (p, buf) # filter (\<lambda>e. fst e \<noteq> p) (dm_store d),
       dm_calls := dm_calls d @ [WritePageCall p buf]\<rparr>"

definition ReadPage :: "DiskManager \<Rightarrow> page_id_t \<Rightarrow> page_data \<Rightarrow> page_data \<times> DiskManager" where
  \<comment> \<open>Modelled from the spec: a read fills the buffer with the stored contents of the page;
      for a page never written the buffer is left as it was.\<close>
  "ReadPage d p buf =
     ((case map_of (dm_store d) p of Some c \<Rightarrow> c | None \<Rightarrow> buf),
      d\<lparr>dm_calls := dm_calls d @ [ReadPageCall p]\<rparr>)"

definition AllocatePage :: "DiskManager \<Rightarrow> page_id_t \<times> DiskManager" where
  \<comment> \<open>Modelled from the spec: reserves and returns a fresh page id.\<close>
  "AllocatePage d =
     (dm_next_page_id d,
      d\<lparr>dm_next_page_id := dm_next_page_id d + 1, dm_calls := dm_calls d @ [AllocatePageCall]\<rparr>)"

definition DeallocatePage :: "DiskManager \<Rightarrow> page_id_t \<Rightarrow> DiskManager" where
  \<comment> \<open>Modelled from the spec: releases a page id; nothing the pool observes changes.\<close>
  "DeallocatePage d p = d\<lparr>dm_calls := dm_calls d @ [DeallocatePageCall p]\<rparr>"

section \<open>The LRU replacer (lru\_replacer.cpp)\<close>

text \<open>
  The replacer keeps the list \<open>used_list\<close> of eligible frames (oldest first), the lookup
  \<open>map\<close> from a frame id to the list node that holds it, and the set \<open>pinned\<close>. A list
  node is identified by the frame id it holds, so the lookup is modelled by its set of keys
  (\<open>map_keys\<close>), and erasing the node a lookup entry points at removes that frame id from
  the list.
\<close>

record LRUReplacer =
  capacity :: nat
  used_list :: "frame_id_t list"
  map_keys :: "frame_id_t set"
  pinned :: "frame_id_t set"

definition LRUReplacer_new :: "nat \<Rightarrow> LRUReplacer" where
  "LRUReplacer_new num_pages =
     \<lparr>capacity = num_pages, used_list = [], map_keys = {}, pinned = {}\<rparr>"

text \<open>
  \<open>Victim\<close> returns \<open>Some v\<close> when the source returns true with \<open>*frame_id = v\<close>, and
  \<open>None\<close> when it returns false (the out parameter is then untouched). The front of the
  list is popped before the lookup is consulted, as in the source.
\<close>

definition Victim :: "LRUReplacer \<Rightarrow> frame_id_t option \<times> LRUReplacer" where
  "Victim r =
     (case used_list r of
        [] \<Rightarrow> (None, r)
      | victim # rest \<Rightarrow>
          if victim \<notin> map_keys r then (None, r\<lparr>used_list := rest\<rparr>)
          else (Some victim, r\<lparr>used_list := rest, map_keys := map_keys r - {victim}\<rparr>))"

definition Pin :: "LRUReplacer \<Rightarrow> frame_id_t \<Rightarrow> LRUReplacer" where
  "Pin r frame_id =
     (if frame_id \<notin> map_keys r then r
      else r\<lparr>used_list := remove1 frame_id (used_list r),
             map_keys := map_keys r - {frame_id},
             pinned := insert frame_id (pinned r)\<rparr>)"

definition Unpin :: "LRUReplacer \<Rightarrow> frame_id_t \<Rightarrow> LRUReplacer" where
  "Unpin r frame_id =
     (if frame_id \<notin> pinned r then r
      else r\<lparr>pinned := pinned r - {frame_id},
             used_list := used_list r @ [frame_id],
             map_keys := insert frame_id (map_keys r)\<rparr>)"

definition Size :: "LRUReplacer \<Rightarrow> nat" where
  "Size r = card (map_keys r) + card (pinned r)"

subsection \<open>Sequences of replacer calls\<close>

datatype replacer_call = CallVictim | CallPin frame_id_t | CallUnpin frame_id_t | CallSize

datatype replacer_result = VictimResult "frame_id_t option" | SizeResult nat | NoResult

fun replacer_step :: "replacer_call \<Rightarrow> LRUReplacer \<Rightarrow> replacer_result \<times> LRUReplacer" where
  "replacer_step CallVictim r = (VictimResult (fst (Victim r)), snd (Victim r))"
| "replacer_step (CallPin f) r = (NoResult, Pin r f)"
| "replacer_step (CallUnpin f) r = (NoResult, Unpin r f)"
| "replacer_step CallSize r = (SizeResult (Size r), r)"

fun replacer_run :: "replacer_call list \<Rightarrow> LRUReplacer \<Rightarrow> replacer_result list \<times> LRUReplacer" where
  "replacer_run [] r = ([], r)"
| "replacer_run (c # cs) r =
     (let (res, r') = replacer_step c r; (ress, r'') = replacer_run cs r'
      in (res # ress, r''))"

fun untracked_result :: "replacer_call \<Rightarrow> replacer_result" where
  "untracked_result CallVictim = VictimResult None"
| "untracked_result CallSize = SizeResult 0"
| "untracked_result (CallPin f) = NoResult"
| "untracked_result (CallUnpin f) = NoResult"

section \<open>The Buffer Pool Manager (buffer\_pool\_manager.cpp)\<close>

text \<open>
  The page table is an \<open>unordered_map\<close> from page ids to frame ids: an association list
  whose keys are kept unique by \<open>emplace\<close>, which inserts nothing when the key is present.
\<close>

type_synonym page_table_t = "(page_id_t \<times> frame_id_t) list"

definition pt_erase :: "page_table_t \<Rightarrow> page_id_t \<Rightarrow> page_table_t" where
  "pt_erase pt p = filter (\<lambda>e. fst e \<noteq> p) pt"

definition pt_emplace :: "page_table_t \<Rightarrow> page_id_t \<Rightarrow> frame_id_t \<Rightarrow> page_table_t" where
  "pt_emplace pt p f = (if map_of pt p = None then pt @ [(p, f)] else pt)"

record BufferPoolManager =
  pool_size :: nat
  pages :: "Page list"
  page_table :: page_table_t
  free_list :: "frame_id_t list"
  replacer :: LRUReplacer
  disk_manager :: DiskManager

definition DiskManager_new :: DiskManager where
  \<comment> \<open>Modelled from the spec: a disk on which nothing was written or allocated yet.\<close>
  "DiskManager_new = \<lparr>dm_store = [], dm_next_page_id = 0, dm_calls = []\<rparr>"

definition BufferPoolManager_new :: "nat \<Rightarrow> nat \<Rightarrow> DiskManager \<Rightarrow> BufferPoolManager" where
  \<comment> \<open>The first argument is the page size of the configuration header, a parameter here.\<close>
  "BufferPoolManager_new page_size n d =
     \<lparr>pool_size = n, pages = replicate n (Page_new page_size), page_table = [],
      free_list = [0..<n], replacer = LRUReplacer_new n, disk_manager = d\<rparr>"

text \<open>
  The choice of a target frame, written twice in the source (in \<open>FetchPageImpl\<close> and in
  \<open>NewPageImpl\<close>): the front of the free list, else the replacer's victim.
\<close>

definition pick_frame :: "BufferPoolManager \<Rightarrow> frame_id_t option \<times> BufferPoolManager" where
  "pick_frame s =
     (case free_list s of
        f # rest \<Rightarrow> (Some f, s\<lparr>free_list := rest\<rparr>)
      | [] \<Rightarrow> (fst (Victim (replacer s)), s\<lparr>replacer := snd (Victim (replacer s))\<rparr>))"

text \<open>The write-back of a dirty frame, written three times in the source.\<close>

definition write_back :: "BufferPoolManager \<Rightarrow> frame_id_t \<Rightarrow> BufferPoolManager" where
  "write_back s f =
     (if is_dirty (pages s ! f)
      then s\<lparr>disk_manager := WritePage (disk_manager s) (page_id (pages s ! f)) (data (pages s ! f)),
             pages := (pages s)[f := (pages s ! f)\<lparr>is_dirty := False\<rparr>]\<rparr>
      else s)"

text \<open>
  The rebinding of the chosen frame to the requested page, the tail of the miss path of
  \<open>FetchPageImpl\<close>: write back if dirty, erase the frame's old page-table entry, insert
  the new one, read the page from disk, \<open>Pin\<close>, and increment the pin count.
\<close>

definition bind_fetched ::
  "BufferPoolManager \<Rightarrow> frame_id_t \<Rightarrow> page_id_t \<Rightarrow> BufferPoolManager" where
  "bind_fetched s1 f p =
     (let s2 = write_back s1 f;
          pt = pt_emplace (pt_erase (page_table s2) (page_id (pages s2 ! f))) p f;
          rd = ReadPage (disk_manager s2) p (data (pages s2 ! f));
          pg = (pages s2 ! f)\<lparr>page_id := p, data := fst rd\<rparr>
      in s2\<lparr>page_table := pt,
            disk_manager := snd rd,
            replacer := Pin (replacer s2) f,
            pages := (pages s2)[f := pg\<lparr>pin_count := wrap_int32 (pin_count pg + 1)\<rparr>]\<rparr>)"

text \<open>
  A returned \<open>Page *\<close> is the frame it points at: \<open>Some f\<close> is \<open>&pages_[f]\<close> and \<open>None\<close>
  is \<open>nullptr\<close>.
\<close>

definition FetchPageImpl ::
  "BufferPoolManager \<Rightarrow> page_id_t \<Rightarrow> frame_id_t option \<times> BufferPoolManager" where
  "FetchPageImpl s p =
     (case map_of (page_table s) p of
        Some f \<Rightarrow>
          (Some f,
           s\<lparr>pages := (pages s)[f := (pages s ! f)
                        \<lparr>pin_count := wrap_int32 (pin_count (pages s ! f) + 1)\<rparr>],
             replacer := Pin (replacer s) f\<rparr>)
      | None \<Rightarrow>
          (case pick_frame s of
             (None, s1) \<Rightarrow> (None, s1)
           | (Some f, s1) \<Rightarrow> (Some f, bind_fetched s1 f p)))"

definition UnpinPageImpl ::
  "BufferPoolManager \<Rightarrow> page_id_t \<Rightarrow> bool \<Rightarrow> bool \<times> BufferPoolManager" where
  "UnpinPageImpl s p dirty =
     (case map_of (page_table s) p of
        None \<Rightarrow> (True, s)
      | Some f \<Rightarrow>
          let pg = (if dirty then (pages s ! f)\<lparr>is_dirty := True\<rparr> else pages s ! f)
          in if pin_count pg \<le> 0 then (False, s\<lparr>pages := (pages s)[f := pg]\<rparr>)
             else (True,
                   s\<lparr>pages := (pages s)[f := pg\<lparr>pin_count := pin_count pg - 1\<rparr>],
                     replacer := (if pin_count pg - 1 = 0 then Unpin (replacer s) f
                                  else replacer s)\<rparr>))"

definition FlushPageImpl :: "BufferPoolManager \<Rightarrow> page_id_t \<Rightarrow> bool \<times> BufferPoolManager" where
  "FlushPageImpl s p =
     (case map_of (page_table s) p of
        None \<Rightarrow> (False, s)
      | Some f \<Rightarrow>
          (True,
           s\<lparr>disk_manager := WritePage (disk_manager s) p (data (pages s ! f)),
             pages := (pages s)[f := (pages s ! f)\<lparr>is_dirty := False\<rparr>]\<rparr>))"

text \<open>
  The scan at the head of \<open>NewPageImpl\<close>: \<open>all_pinned\<close> starts true and the loop clears it
  at the first frame whose pin count is not positive.
\<close>

fun all_pinned_scan :: "Page list \<Rightarrow> nat list \<Rightarrow> bool" where
  "all_pinned_scan ps [] = True"
| "all_pinned_scan ps (i # rest) =
     (if pin_count (ps ! i) \<le> 0 then False else all_pinned_scan ps rest)"

text \<open>
  The rebinding of the chosen frame to a newly allocated page, the tail of \<open>NewPageImpl\<close>:
  write back if dirty, erase the old page-table entry, allocate the id, set it, increment
  the pin count, zero the buffer, \<open>Pin\<close>, insert the new entry. The result is the new
  page id and the new state.
\<close>

definition bind_new :: "BufferPoolManager \<Rightarrow> frame_id_t \<Rightarrow> page_id_t \<times> BufferPoolManager" where
  "bind_new s1 f =
     (let s2 = write_back s1 f;
          pt = pt_erase (page_table s2) (page_id (pages s2 ! f));
          al = AllocatePage (disk_manager s2);
          pg = (pages s2 ! f)\<lparr>page_id := fst al,
                               pin_count := wrap_int32 (pin_count (pages s2 ! f) + 1)\<rparr>
      in (fst al,
          s2\<lparr>disk_manager := snd al,
             pages := (pages s2)[f := ResetMemory pg],
             replacer := Pin (replacer s2) f,
             page_table := pt_emplace pt (fst al) f\<rparr>))"

text \<open>
  \<open>NewPageImpl\<close> returns \<open>Some (f, id)\<close> when the source returns \<open>&pages_[f]\<close> after writing
  \<open>id\<close> to \<open>*page_id\<close>, and \<open>None\<close> when it returns \<open>nullptr\<close> (the out parameter is then
  untouched). The test after the scan is the source's \<open>if(!all_pinned) return nullptr\<close>.
\<close>

definition NewPageImpl ::
  "BufferPoolManager \<Rightarrow> (frame_id_t \<times> page_id_t) option \<times> BufferPoolManager" where
  "NewPageImpl s =
     (if \<not> all_pinned_scan (pages s) [0..<pool_size s] then (None, s)
      else
        (case pick_frame s of
           (None, s1) \<Rightarrow> (None, s1)
         | (Some f, s1) \<Rightarrow> (Some (f, fst (bind_new s1 f)), snd (bind_new s1 f))))"

definition DeletePageImpl :: "BufferPoolManager \<Rightarrow> page_id_t \<Rightarrow> bool \<times> BufferPoolManager" where
  "DeletePageImpl s p =
     (case map_of (page_table s) p of
        None \<Rightarrow> (True, s)
      | Some f \<Rightarrow>
          if pin_count (pages s ! f) \<noteq> 0 then (False, s)
          else
            let s1 = write_back s f
            in (True,
                s1\<lparr>page_table := pt_erase (page_table s1) p,
                   disk_manager := DeallocatePage (disk_manager s1) p,
                   pages := (pages s1)[f := (ResetMemory (pages s1 ! f))
                              \<lparr>page_id := INVALID_PAGE_ID, is_dirty := False, pin_count := 0\<rparr>],
                   free_list := free_list s1 @ [f]\<rparr>))"

definition flush_frame :: "frame_id_t \<Rightarrow> BufferPoolManager \<Rightarrow> BufferPoolManager" where
  \<comment> \<open>The body of the loop of \<open>FlushAllPagesImpl\<close>.\<close>
  "flush_frame i s =
     (if page_id (pages s ! i) \<noteq> INVALID_PAGE_ID \<and> is_dirty (pages s ! i)
      then s\<lparr>disk_manager := WritePage (disk_manager s) (page_id (pages s ! i)) (data (pages s ! i)),
             pages := (pages s)[i := (pages s ! i)\<lparr>is_dirty := False\<rparr>]\<rparr>
      else s)"

definition FlushAllPagesImpl :: "BufferPoolManager \<Rightarrow> BufferPoolManager" where
  "FlushAllPagesImpl s = fold flush_frame [0..<pool_size s] s"

subsection \<open>Sequences of client calls\<close>

datatype bpm_call =
    CallFetchPage page_id_t
  | CallUnpinPage page_id_t bool
  | CallFlushPage page_id_t
  | CallNewPage
  | CallDeletePage page_id_t
  | CallFlushAllPages

fun bpm_step :: "bpm_call \<Rightarrow> BufferPoolManager \<Rightarrow> BufferPoolManager" where
  "bpm_step (CallFetchPage p) s = snd (FetchPageImpl s p)"
| "bpm_step (CallUnpinPage p dirty) s = snd (UnpinPageImpl s p dirty)"
| "bpm_step (CallFlushPage p) s = snd (FlushPageImpl s p)"
| "bpm_step CallNewPage s = snd (NewPageImpl s)"
| "bpm_step (CallDeletePage p) s = snd (DeletePageImpl s p)"
| "bpm_step CallFlushAllPages s = FlushAllPagesImpl s"

definition bpm_run :: "bpm_call list \<Rightarrow> BufferPoolManager \<Rightarrow> BufferPoolManager" where
  "bpm_run cs s = fold bpm_step cs s"

section \<open>Well-formed states and concrete pools\<close>

text \<open>
  The replacer's own data invariant (spec, section 3): the eligible list has no duplicates,
  the lookup has exactly its elements as keys, and no frame is both eligible and pinned.
\<close>

definition replacer_coherent :: "LRUReplacer \<Rightarrow> bool" where
  "replacer_coherent r \<longleftrightarrow>
     distinct (used_list r) \<and> set (used_list r) = map_keys r \<and> map_keys r \<inter> pinned r = {}"

definition pin_counts_ok :: "Page list \<Rightarrow> bool" where
  "pin_counts_ok ps \<longleftrightarrow> (\<forall>pg \<in> set ps. is_int32 (pin_count pg))"

text \<open>
  A pool state in the sense of the data model: the frame array has \<open>pool_size\<close> slots,
  every frame id held by the page table, the free list or the replacer is an index into it,
  pin counts are values of a 32-bit \<open>int\<close>, and the replacer is coherent. Every state the
  pool can reach is one (lemma \<open>pool_state_run\<close> below).
\<close>

definition pool_state :: "BufferPoolManager \<Rightarrow> bool" where
  "pool_state s \<longleftrightarrow>
     length (pages s) = pool_size s \<and>
     (\<forall>e \<in> set (page_table s). snd e < pool_size s) \<and>
     (\<forall>f \<in> set (free_list s). f < pool_size s) \<and>
     (\<forall>f \<in> map_keys (replacer s) \<union> pinned (replacer s). f < pool_size s) \<and>
     pin_counts_ok (pages s) \<and>
     replacer_coherent (replacer s)"

text \<open>
  The bookkeeping invariant behind the frame count: the replacer tracks nothing, the free
  list and the page table have no duplicates, share no frame, and hold only frame ids of
  the pool, no page-table key is \<open>INVALID_PAGE_ID\<close>, and every free frame is unbound and
  unpinned.
\<close>

definition frames_accounted :: "BufferPoolManager \<Rightarrow> bool" where
  "frames_accounted s \<longleftrightarrow>
     length (pages s) = pool_size s \<and>
     used_list (replacer s) = [] \<and> map_keys (replacer s) = {} \<and> pinned (replacer s) = {} \<and>
     distinct (free_list s) \<and>
     distinct (map fst (page_table s)) \<and>
     distinct (map snd (page_table s)) \<and>
     (\<forall>e \<in> set (page_table s).
        fst e \<noteq> INVALID_PAGE_ID \<and> snd e < pool_size s \<and> snd e \<notin> set (free_list s)) \<and>
     (\<forall>f \<in> set (free_list s).
        f < pool_size s \<and> page_id (pages s ! f) = INVALID_PAGE_ID \<and> pin_count (pages s ! f) \<le> 0) \<and>
     length (free_list s) + length (page_table s) = pool_size s"

text \<open>A client call that does not fetch the reserved page id.\<close>

fun fetches_valid :: "bpm_call \<Rightarrow> bool" where
  "fetches_valid (CallFetchPage p) = (p \<noteq> INVALID_PAGE_ID)"
| "fetches_valid _ = True"

text \<open>Small pools used to run the code on concrete inputs (pages of two bytes).\<close>

definition pool1 :: BufferPoolManager where
  "pool1 = BufferPoolManager_new 2 1 DiskManager_new"

definition pool1_fetched :: BufferPoolManager where
  "pool1_fetched = bpm_run [CallFetchPage 7] pool1"

definition pool1_unpinned :: BufferPoolManager where
  "pool1_unpinned = bpm_run [CallFetchPage 7, CallUnpinPage 7 False] pool1"

text \<open>The pool of one frame holding page 7 with pin count \<open>c\<close>.\<close>

definition pool1_pinned :: "int \<Rightarrow> BufferPoolManager" where
  "pool1_pinned c = pool1_fetched\<lparr>pages := [(pages pool1_fetched ! 0)\<lparr>pin_count := c\<rparr>]\<rparr>"

definition pool2 :: BufferPoolManager where
  "pool2 = BufferPoolManager_new 2 2 DiskManager_new"

definition pool3 :: BufferPoolManager where
  "pool3 = BufferPoolManager_new 2 3 DiskManager_new"

definition busy_calls :: "bpm_call list" where
  "busy_calls =
     [CallFetchPage 7, CallNewPage, CallUnpinPage 7 True, CallFlushPage 7,
      CallUnpinPage INVALID_PAGE_ID False, CallFetchPage 8, CallDeletePage 7,
      CallDeletePage INVALID_PAGE_ID, CallFlushAllPages, CallFetchPage 9]"

section \<open>Properties of the replacer\<close>

lemma replacer_step_new:
  "replacer_step c (LRUReplacer_new n) = (untracked_result c, LRUReplacer_new n)"
  by (cases c) (simp_all add: LRUReplacer_new_def Victim_def Pin_def Unpin_def Size_def)

text \<open>
  Claim C4. Whatever sequence of Victim, Pin, Unpin and Size calls is made on a freshly
  constructed replacer, the replacer stays in its initial state: the eligible list, the
  lookup and the pinned set are empty after the whole sequence (hence after every prefix),
  every Size call returns 0 and every Victim call returns false.
\<close>

theorem replacer_never_tracks:
  "replacer_run cs (LRUReplacer_new n) = (map untracked_result cs, LRUReplacer_new n)"
  by (induction cs) (simp_all add: replacer_step_new)

section \<open>Well-formed states are preserved\<close>

lemma coherent_new: "replacer_coherent (LRUReplacer_new n)"
  by (simp add: replacer_coherent_def LRUReplacer_new_def)

lemma coherent_Pin: "replacer_coherent r \<Longrightarrow> replacer_coherent (Pin r f)"
  by (auto simp add: replacer_coherent_def Pin_def)

lemma coherent_Unpin: "replacer_coherent r \<Longrightarrow> replacer_coherent (Unpin r f)"
  by (auto simp add: replacer_coherent_def Unpin_def)

lemma coherent_Victim: "replacer_coherent r \<Longrightarrow> replacer_coherent (snd (Victim r))"
  by (auto simp add: replacer_coherent_def Victim_def split: list.splits)

lemma tracked_Pin: "map_keys (Pin r f) \<union> pinned (Pin r f) = map_keys r \<union> pinned r"
  by (auto simp add: Pin_def)

lemma tracked_Unpin: "map_keys (Unpin r f) \<union> pinned (Unpin r f) = map_keys r \<union> pinned r"
  by (auto simp add: Unpin_def)

lemma tracked_Victim:
  "map_keys (snd (Victim r)) \<union> pinned (snd (Victim r)) \<subseteq> map_keys r \<union> pinned r"
  by (auto simp add: Victim_def split: list.splits)

lemma Victim_Some_tracked: "fst (Victim r) = Some v \<Longrightarrow> v \<in> map_keys r"
  by (auto simp add: Victim_def split: list.splits if_splits)

lemma Victim_None_coherent:
  "replacer_coherent r \<Longrightarrow> fst (Victim r) = None \<Longrightarrow> snd (Victim r) = r"
  by (auto simp add: replacer_coherent_def Victim_def split: list.splits if_splits)

lemma wrap_int32_id: "is_int32 x \<Longrightarrow> wrap_int32 x = x"
  by (simp add: wrap_int32_def is_int32_def)

lemma is_int32_wrap: "is_int32 (wrap_int32 x)"
  by (simp add: wrap_int32_def is_int32_def)

lemma is_int32_zero: "is_int32 0"
  by (simp add: is_int32_def)

lemma is_int32_decrement: "is_int32 c \<Longrightarrow> \<not> c \<le> 0 \<Longrightarrow> is_int32 (c - 1)"
  by (simp add: is_int32_def)

lemma pin_counts_update:
  "pin_counts_ok ps \<Longrightarrow> is_int32 (pin_count pg') \<Longrightarrow> pin_counts_ok (ps[f := pg'])"
  using set_update_subset_insert [of ps f pg'] by (auto simp add: pin_counts_ok_def)

lemma pin_count_nth:
  "pin_counts_ok ps \<Longrightarrow> f < length ps \<Longrightarrow> is_int32 (pin_count (ps ! f))"
  by (simp add: pin_counts_ok_def)

lemma pool_state_new: "pool_state (BufferPoolManager_new psz n d)"
  by (simp add: pool_state_def BufferPoolManager_new_def replacer_coherent_def Page_new_def
      LRUReplacer_new_def pin_counts_ok_def is_int32_zero)

lemma pool_state_write_back: "pool_state s \<Longrightarrow> f < pool_size s \<Longrightarrow> pool_state (write_back s f)"
  by (simp add: pool_state_def write_back_def pin_counts_update pin_count_nth is_int32_wrap is_int32_decrement)

lemma write_back_fields [simp]:
  "pool_size (write_back s f) = pool_size s"
  "page_table (write_back s f) = page_table s"
  "free_list (write_back s f) = free_list s"
  "replacer (write_back s f) = replacer s"
  "length (pages (write_back s f)) = length (pages s)"
  by (simp_all add: write_back_def)

lemma pool_state_pick_frame: "pool_state s \<Longrightarrow> pool_state (snd (pick_frame s))"
  using tracked_Victim [of "replacer s"]
  by (auto simp add: pool_state_def pick_frame_def coherent_Victim split: list.splits)

lemma pick_frame_range:
  "pool_state s \<Longrightarrow> fst (pick_frame s) = Some f \<Longrightarrow> f < pool_size s"
  by (auto simp add: pool_state_def pick_frame_def split: list.splits dest: Victim_Some_tracked)

lemma pick_frame_pool_size [simp]: "pool_size (snd (pick_frame s)) = pool_size s"
  by (simp add: pick_frame_def split: list.splits)

lemma map_of_range: "map_of pt p = Some f \<Longrightarrow> \<forall>e \<in> set pt. snd e < n \<Longrightarrow> f < n"
  using map_of_SomeD by fastforce

lemma FetchPageImpl_hit:
  "map_of (page_table s) p = Some f \<Longrightarrow>
   FetchPageImpl s p =
     (Some f,
      s\<lparr>pages := (pages s)[f := (pages s ! f)
                   \<lparr>pin_count := wrap_int32 (pin_count (pages s ! f) + 1)\<rparr>],
        replacer := Pin (replacer s) f\<rparr>)"
  by (simp add: FetchPageImpl_def)

lemma FetchPageImpl_no_frame:
  "map_of (page_table s) p = None \<Longrightarrow> fst (pick_frame s) = None \<Longrightarrow>
   FetchPageImpl s p = (None, snd (pick_frame s))"
  by (cases "pick_frame s") (simp add: FetchPageImpl_def)

lemma FetchPageImpl_miss:
  "map_of (page_table s) p = None \<Longrightarrow> fst (pick_frame s) = Some f \<Longrightarrow>
   FetchPageImpl s p = (Some f, bind_fetched (snd (pick_frame s)) f p)"
  by (cases "pick_frame s") (simp add: FetchPageImpl_def)

lemma pool_state_bind_fetched:
  "pool_state s \<Longrightarrow> f < pool_size s \<Longrightarrow> pool_state (bind_fetched s f p)"
  using pool_state_write_back [of s f]
  by (auto simp add: bind_fetched_def Let_def pool_state_def coherent_Pin tracked_Pin
      pin_counts_update pin_count_nth is_int32_wrap is_int32_decrement pt_emplace_def pt_erase_def)

lemma pool_state_Fetch: "pool_state s \<Longrightarrow> pool_state (snd (FetchPageImpl s p))"
proof (cases "map_of (page_table s) p")
  case (Some f)
  assume ps: "pool_state s"
  from Some ps have "f < length (pages s)" by (simp add: pool_state_def map_of_range)
  with ps show ?thesis
    by (simp add: FetchPageImpl_hit [OF Some] pool_state_def coherent_Pin tracked_Pin
        pin_counts_update pin_count_nth is_int32_wrap is_int32_decrement)
next
  case None
  assume ps: "pool_state s"
  show ?thesis
  proof (cases "fst (pick_frame s)")
    case N: None
    with None pool_state_pick_frame [OF ps] show ?thesis
      by (simp add: FetchPageImpl_no_frame)
  next
    case (Some f)
    from pick_frame_range [OF ps Some] pool_state_pick_frame [OF ps] show ?thesis
      by (simp add: FetchPageImpl_miss [OF None Some] pool_state_bind_fetched)
  qed
qed


lemma pool_state_Unpin: "pool_state s \<Longrightarrow> pool_state (snd (UnpinPageImpl s p dirty))"
proof (cases "map_of (page_table s) p")
  case None
  assume "pool_state s"
  with None show ?thesis by (simp add: UnpinPageImpl_def)
next
  case (Some f)
  assume ps: "pool_state s"
  from Some ps have "f < length (pages s)" by (simp add: pool_state_def map_of_range)
  with ps Some show ?thesis
    by (simp add: UnpinPageImpl_def Let_def pool_state_def coherent_Unpin tracked_Unpin
        pin_counts_update pin_count_nth is_int32_wrap is_int32_decrement)
qed

lemma pool_state_Flush: "pool_state s \<Longrightarrow> pool_state (snd (FlushPageImpl s p))"
proof (cases "map_of (page_table s) p")
  case None
  assume "pool_state s"
  with None show ?thesis by (simp add: FlushPageImpl_def)
next
  case (Some f)
  assume ps: "pool_state s"
  from Some ps have "f < length (pages s)" by (simp add: pool_state_def map_of_range)
  with ps Some show ?thesis
    by (simp add: FlushPageImpl_def pool_state_def pin_counts_update pin_count_nth is_int32_wrap is_int32_decrement)
qed

lemma NewPageImpl_some_unpinned:
  "\<not> all_pinned_scan (pages s) [0..<pool_size s] \<Longrightarrow> NewPageImpl s = (None, s)"
  by (simp add: NewPageImpl_def)

lemma NewPageImpl_no_frame:
  "all_pinned_scan (pages s) [0..<pool_size s] \<Longrightarrow> fst (pick_frame s) = None \<Longrightarrow>
   NewPageImpl s = (None, snd (pick_frame s))"
  by (cases "pick_frame s") (simp add: NewPageImpl_def)

lemma NewPageImpl_bind:
  "all_pinned_scan (pages s) [0..<pool_size s] \<Longrightarrow> fst (pick_frame s) = Some f \<Longrightarrow>
   NewPageImpl s =
     (Some (f, fst (bind_new (snd (pick_frame s)) f)), snd (bind_new (snd (pick_frame s)) f))"
  by (cases "pick_frame s") (simp add: NewPageImpl_def)

lemma pool_state_bind_new:
  "pool_state s \<Longrightarrow> f < pool_size s \<Longrightarrow> pool_state (snd (bind_new s f))"
  using pool_state_write_back [of s f]
  by (auto simp add: bind_new_def Let_def pool_state_def coherent_Pin tracked_Pin
      pin_counts_update pin_count_nth is_int32_wrap is_int32_decrement pt_emplace_def pt_erase_def ResetMemory_def)

lemma pool_state_New: "pool_state s \<Longrightarrow> pool_state (snd (NewPageImpl s))"
proof (cases "all_pinned_scan (pages s) [0..<pool_size s]")
  case False
  assume "pool_state s"
  with False show ?thesis by (simp add: NewPageImpl_some_unpinned)
next
  case True
  assume ps: "pool_state s"
  show ?thesis
  proof (cases "fst (pick_frame s)")
    case None
    with True pool_state_pick_frame [OF ps] show ?thesis
      by (simp add: NewPageImpl_no_frame)
  next
    case (Some f)
    from pick_frame_range [OF ps Some] pool_state_pick_frame [OF ps] show ?thesis
      by (simp add: NewPageImpl_bind [OF True Some] pool_state_bind_new)
  qed
qed

lemma pool_state_Delete: "pool_state s \<Longrightarrow> pool_state (snd (DeletePageImpl s p))"
proof (cases "map_of (page_table s) p")
  case None
  assume "pool_state s"
  with None show ?thesis by (simp add: DeletePageImpl_def)
next
  case (Some f)
  assume ps: "pool_state s"
  from Some ps have f: "f < pool_size s" by (simp add: pool_state_def map_of_range)
  show ?thesis
  proof (cases "pin_count (pages s ! f) = 0")
    case False
    with ps Some show ?thesis by (simp add: DeletePageImpl_def)
  next
    case True
    with Some f pool_state_write_back [OF ps f] show ?thesis
      by (auto simp add: DeletePageImpl_def Let_def pool_state_def pin_counts_update is_int32_zero
          pt_erase_def)
  qed
qed

lemma pool_state_flush_frame: "pool_state s \<Longrightarrow> pool_state (flush_frame i s)"
proof (cases "i < length (pages s)")
  case True
  assume "pool_state s"
  with True show ?thesis
    by (simp add: flush_frame_def pool_state_def pin_counts_update pin_count_nth is_int32_wrap is_int32_decrement)
next
  case False
  assume "pool_state s"
  with False show ?thesis
    by (simp add: flush_frame_def pool_state_def list_update_beyond)
qed

lemma pool_state_fold_flush: "pool_state s \<Longrightarrow> pool_state (fold flush_frame is s)"
  by (induction "is" arbitrary: s) (simp_all add: pool_state_flush_frame)

lemma pool_state_FlushAll: "pool_state s \<Longrightarrow> pool_state (FlushAllPagesImpl s)"
  by (simp add: FlushAllPagesImpl_def pool_state_fold_flush)

lemma pool_state_step: "pool_state s \<Longrightarrow> pool_state (bpm_step c s)"
  by (cases c)
    (simp_all add: pool_state_Fetch pool_state_Unpin pool_state_Flush pool_state_New
      pool_state_Delete pool_state_FlushAll)

lemma pool_state_fold: "pool_state s \<Longrightarrow> pool_state (fold bpm_step cs s)"
  by (induction cs arbitrary: s) (simp_all add: pool_state_step)

lemma pool_state_run: "pool_state (bpm_run cs (BufferPoolManager_new psz n d))"
  by (simp add: bpm_run_def pool_state_fold pool_state_new)

section \<open>Properties of the Buffer Pool Manager\<close>

text \<open>
  Claim C6. Unpin of a page that is not in the page table returns true and leaves the whole
  state as it was. For a resident page it returns false exactly when the frame's pin count
  is already at most 0; otherwise it returns true, the pin count is one less, and the
  replacer is the result of \<open>Unpin\<close> on the frame exactly when the count reached 0 (and is
  untouched otherwise).
\<close>

theorem UnpinPageImpl_contract:
  "(map_of (page_table s) p = None \<longrightarrow> UnpinPageImpl s p dirty = (True, s)) \<and>
   (map_of (page_table s) p = Some f \<longrightarrow>
      (fst (UnpinPageImpl s p dirty) = False \<longleftrightarrow> pin_count (pages s ! f) \<le> 0)) \<and>
   (map_of (page_table s) p = Some f \<and> f < length (pages s) \<and> 0 < pin_count (pages s ! f) \<longrightarrow>
      fst (UnpinPageImpl s p dirty) = True \<and>
      pin_count (pages (snd (UnpinPageImpl s p dirty)) ! f) = pin_count (pages s ! f) - 1 \<and>
      replacer (snd (UnpinPageImpl s p dirty)) =
        (if pin_count (pages s ! f) - 1 = 0 then Unpin (replacer s) f else replacer s))"
  by (simp add: UnpinPageImpl_def Let_def)

theorem UnpinPageImpl_contract_witness:
  "map_of (page_table pool1) 99 = None \<and>
   UnpinPageImpl pool1 99 False = (True, pool1) \<and>
   map_of (page_table pool1_fetched) 7 = Some 0 \<and>
   0 < length (pages pool1_fetched) \<and>
   0 < pin_count (pages pool1_fetched ! 0) \<and>
   fst (UnpinPageImpl pool1_fetched 7 False) = True \<and>
   pin_count (pages (snd (UnpinPageImpl pool1_fetched 7 False)) ! 0) = 0 \<and>
   replacer (snd (UnpinPageImpl pool1_fetched 7 False)) = Unpin (replacer pool1_fetched) 0 \<and>
   map_of (page_table pool1_unpinned) 7 = Some 0 \<and>
   pin_count (pages pool1_unpinned ! 0) \<le> 0 \<and>
   fst (UnpinPageImpl pool1_unpinned 7 False) = False"
proof -
  have h1: "map_of (page_table pool1) 99 = None" by code_simp
  have h2: "map_of (page_table pool1_fetched) 7 = Some 0" by code_simp
  have h3: "0 < length (pages pool1_fetched)" by code_simp
  have h4: "pin_count (pages pool1_fetched ! 0) = 1" by code_simp
  have h5: "map_of (page_table pool1_unpinned) 7 = Some 0" by code_simp
  have h6: "pin_count (pages pool1_unpinned ! 0) = 0" by code_simp
  show ?thesis
    using h1 h2 h3 h4 h5 h6 UnpinPageImpl_contract [of pool1 99 False]
      UnpinPageImpl_contract [of pool1_fetched 7 False 0]
      UnpinPageImpl_contract [of pool1_unpinned 7 False 0]
    by simp
qed

text \<open>
  Claim C7. Delete of a resident page whose pin count is not 0 returns false and the state
  after the call is the state before it: page table, frames (pin count, dirty flag, data),
  free list, replacer, and the Disk Manager with its record of calls.
\<close>

theorem DeletePageImpl_pinned_atomic:
  "map_of (page_table s) p = Some f \<Longrightarrow> pin_count (pages s ! f) \<noteq> 0 \<Longrightarrow>
   DeletePageImpl s p = (False, s)"
  by (simp add: DeletePageImpl_def)

theorem DeletePageImpl_pinned_atomic_witness:
  "map_of (page_table pool1_fetched) 7 = Some 0 \<and>
   pin_count (pages pool1_fetched ! 0) \<noteq> 0 \<and>
   DeletePageImpl pool1_fetched 7 = (False, pool1_fetched)"
proof -
  have h1: "map_of (page_table pool1_fetched) 7 = Some 0" by code_simp
  have h2: "pin_count (pages pool1_fetched ! 0) \<noteq> 0" by code_simp
  from h1 h2 DeletePageImpl_pinned_atomic [OF h1 h2] show ?thesis by simp
qed

text \<open>
  Claim C10. Unpin with \<open>is_dirty = true\<close> of a resident page whose pin count is already
  at most 0 returns false, yet the frame's dirty flag is set: the state after the call is
  the state before it with that flag raised, and differs from it when the frame was clean.
\<close>

theorem UnpinPageImpl_over_unpin_dirties:
  assumes "map_of (page_table s) p = Some f" and "f < length (pages s)"
    and "pin_count (pages s ! f) \<le> 0"
  shows "UnpinPageImpl s p True =
           (False, s\<lparr>pages := (pages s)[f := (pages s ! f)\<lparr>is_dirty := True\<rparr>]\<rparr>) \<and>
         is_dirty (pages (snd (UnpinPageImpl s p True)) ! f) \<and>
         (\<not> is_dirty (pages s ! f) \<longrightarrow> snd (UnpinPageImpl s p True) \<noteq> s)"
proof -
  let ?s' = "s\<lparr>pages := (pages s)[f := (pages s ! f)\<lparr>is_dirty := True\<rparr>]\<rparr>"
  have run: "UnpinPageImpl s p True = (False, ?s')"
    using assms by (simp add: UnpinPageImpl_def)
  have dirty: "is_dirty (pages ?s' ! f)"
    using assms(2) by simp
  have "?s' \<noteq> s" if "\<not> is_dirty (pages s ! f)"
  proof
    assume "?s' = s"
    then have "is_dirty (pages ?s' ! f) = is_dirty (pages s ! f)" by simp
    with dirty that show False by simp
  qed
  with run dirty show ?thesis by simp
qed

theorem UnpinPageImpl_over_unpin_dirties_witness:
  "map_of (page_table pool1_unpinned) 7 = Some 0 \<and>
   0 < length (pages pool1_unpinned) \<and>
   pin_count (pages pool1_unpinned ! 0) \<le> 0 \<and>
   \<not> is_dirty (pages pool1_unpinned ! 0) \<and>
   fst (UnpinPageImpl pool1_unpinned 7 True) = False \<and>
   is_dirty (pages (snd (UnpinPageImpl pool1_unpinned 7 True)) ! 0) \<and>
   snd (UnpinPageImpl pool1_unpinned 7 True) \<noteq> pool1_unpinned"
proof -
  have h1: "map_of (page_table pool1_unpinned) 7 = Some 0" by code_simp
  have h2: "0 < length (pages pool1_unpinned)" by code_simp
  have h3: "pin_count (pages pool1_unpinned ! 0) \<le> 0" by code_simp
  have h4: "\<not> is_dirty (pages pool1_unpinned ! 0)" by code_simp
  have "fst (UnpinPageImpl pool1_unpinned 7 True) = False"
    using UnpinPageImpl_over_unpin_dirties [OF h1 h2 h3] by simp
  with h1 h2 h3 h4 UnpinPageImpl_over_unpin_dirties [OF h1 h2 h3] show ?thesis by blast
qed

lemma pick_frame_None_unchanged:
  "replacer_coherent (replacer s) \<Longrightarrow> fst (pick_frame s) = None \<Longrightarrow> snd (pick_frame s) = s"
  by (simp add: pick_frame_def Victim_None_coherent split: list.splits)

text \<open>
  Claim C8. Whenever NewPage returns null, the state after the call is the state before it
  (frames, page table, free list, replacer and Disk Manager), and in particular the Disk
  Manager's record of calls has no new AllocatePage. This holds in every state whose
  replacer is coherent, which every reachable state is (\<open>pool_state_run\<close>).
\<close>

theorem NewPageImpl_null_atomic:
  assumes "replacer_coherent (replacer s)" and "fst (NewPageImpl s) = None"
  shows "snd (NewPageImpl s) = s \<and>
         dm_calls (disk_manager (snd (NewPageImpl s))) = dm_calls (disk_manager s)"
proof (cases "all_pinned_scan (pages s) [0..<pool_size s]")
  case False
  then show ?thesis by (simp add: NewPageImpl_some_unpinned)
next
  case True
  show ?thesis
  proof (cases "fst (pick_frame s)")
    case None
    with True assms(1) show ?thesis
      by (simp add: NewPageImpl_no_frame pick_frame_None_unchanged)
  next
    case (Some f)
    with True assms(2) show ?thesis by (simp add: NewPageImpl_bind)
  qed
qed

theorem NewPageImpl_null_atomic_witness:
  "replacer_coherent (replacer pool1_fetched) \<and>
   fst (NewPageImpl pool1_fetched) = None \<and>
   snd (NewPageImpl pool1_fetched) = pool1_fetched \<and>
   dm_calls (disk_manager (snd (NewPageImpl pool1_fetched))) =
     dm_calls (disk_manager pool1_fetched)"
proof -
  have h1: "replacer_coherent (replacer pool1_fetched)" by code_simp
  have h2: "fst (NewPageImpl pool1_fetched) = None" by code_simp
  from h1 h2 NewPageImpl_null_atomic [OF h1 h2] show ?thesis by blast
qed

text \<open>
  Claim C9, amended. In every pool state in which page \<open>p\<close> is resident in frame \<open>f\<close> with
  a pin count that is at least 0 and below 2147483647 (the largest \<open>int\<close>), Fetch of \<open>p\<close>
  returns the handle of \<open>f\<close>, the Unpin (not dirty) that follows returns true, and the
  frame's pin count is then what it was before the Fetch.
\<close>

theorem Fetch_Unpin_round_trip:
  assumes "pool_state s" and "map_of (page_table s) p = Some f"
    and "0 \<le> pin_count (pages s ! f)" and "pin_count (pages s ! f) < 2147483647"
  shows "fst (FetchPageImpl s p) = Some f \<and>
         fst (UnpinPageImpl (snd (FetchPageImpl s p)) p False) = True \<and>
         pin_count (pages (snd (UnpinPageImpl (snd (FetchPageImpl s p)) p False)) ! f) =
           pin_count (pages s ! f)"
proof -
  from assms(1,2) have f: "f < length (pages s)" by (simp add: pool_state_def map_of_range)
  from assms(3,4) have "is_int32 (pin_count (pages s ! f) + 1)" by (simp add: is_int32_def)
  then have w: "wrap_int32 (pin_count (pages s ! f) + 1) = pin_count (pages s ! f) + 1"
    by (rule wrap_int32_id)
  from f assms(2,3) show ?thesis
    by (simp add: FetchPageImpl_hit UnpinPageImpl_def Let_def w)
qed

theorem Fetch_Unpin_round_trip_witness:
  "pool_state pool1_unpinned \<and>
   map_of (page_table pool1_unpinned) 7 = Some 0 \<and>
   0 \<le> pin_count (pages pool1_unpinned ! 0) \<and>
   pin_count (pages pool1_unpinned ! 0) < 2147483647 \<and>
   fst (FetchPageImpl pool1_unpinned 7) = Some 0 \<and>
   fst (UnpinPageImpl (snd (FetchPageImpl pool1_unpinned 7)) 7 False) = True \<and>
   pin_count (pages (snd (UnpinPageImpl (snd (FetchPageImpl pool1_unpinned 7)) 7 False)) ! 0) =
     pin_count (pages pool1_unpinned ! 0)"
proof -
  have h1: "pool_state pool1_unpinned" by code_simp
  have h2: "map_of (page_table pool1_unpinned) 7 = Some 0" by code_simp
  have h3: "0 \<le> pin_count (pages pool1_unpinned ! 0)" by code_simp
  have h4: "pin_count (pages pool1_unpinned ! 0) < 2147483647" by code_simp
  from h1 h2 h3 h4 Fetch_Unpin_round_trip [OF h1 h2 h3 h4] show ?thesis by blast
qed

text \<open>
  Outside these bounds the law fails. A negative count (which only an overflow produces) is
  still not positive after the Fetch, so the Unpin is refused.
\<close>

lemma Fetch_Unpin_negative_count:
  assumes "pool_state s" and "map_of (page_table s) p = Some f"
    and "pin_count (pages s ! f) < 0"
  shows "fst (UnpinPageImpl (snd (FetchPageImpl s p)) p False) = False"
proof -
  from assms(1,2) have f: "f < length (pages s)" by (simp add: pool_state_def map_of_range)
  with assms(1) have "is_int32 (pin_count (pages s ! f))"
    by (simp add: pool_state_def pin_count_nth)
  with assms(3) have "is_int32 (pin_count (pages s ! f) + 1)" by (simp add: is_int32_def)
  then have w: "wrap_int32 (pin_count (pages s ! f) + 1) = pin_count (pages s ! f) + 1"
    by (rule wrap_int32_id)
  from f assms(2,3) show ?thesis
    by (simp add: FetchPageImpl_hit UnpinPageImpl_def Let_def w)
qed

text \<open>
  Fetching page 7 again and again on the pool of one frame only counts the pins up, so
  2147483647 Fetches of page 7 on the fresh pool leave it resident with the largest count.
\<close>

lemma pool1_pinned_explicit:
  "pool1_pinned c =
     \<lparr>pool_size = 1,
      pages = [\<lparr>data = [0, 0], page_id = 7, pin_count = c, is_dirty = False\<rparr>],
      page_table = [(7, 0)], free_list = [],
      replacer = \<lparr>capacity = 1, used_list = [], map_keys = {}, pinned = {}\<rparr>,
      disk_manager = \<lparr>dm_store = [], dm_next_page_id = 0, dm_calls = [ReadPageCall 7]\<rparr>\<rparr>"
proof -
  have e: "pool1_fetched =
     \<lparr>pool_size = 1,
      pages = [\<lparr>data = [0, 0], page_id = 7, pin_count = 1, is_dirty = False\<rparr>],
      page_table = [(7, 0)], free_list = [],
      replacer = \<lparr>capacity = 1, used_list = [], map_keys = {}, pinned = {}\<rparr>,
      disk_manager = \<lparr>dm_store = [], dm_next_page_id = 0, dm_calls = [ReadPageCall 7]\<rparr>\<rparr>"
    by code_simp
  show ?thesis unfolding pool1_pinned_def e by simp
qed

lemma pool1_fetched_pinned: "bpm_step (CallFetchPage 7) pool1 = pool1_pinned 1"
proof -
  have "bpm_step (CallFetchPage 7) pool1 =
     \<lparr>pool_size = 1,
      pages = [\<lparr>data = [0, 0], page_id = 7, pin_count = 1, is_dirty = False\<rparr>],
      page_table = [(7, 0)], free_list = [],
      replacer = \<lparr>capacity = 1, used_list = [], map_keys = {}, pinned = {}\<rparr>,
      disk_manager = \<lparr>dm_store = [], dm_next_page_id = 0, dm_calls = [ReadPageCall 7]\<rparr>\<rparr>"
    by code_simp
  then show ?thesis by (simp only: pool1_pinned_explicit)
qed

lemma pool1_pinned_fetch:
  "bpm_step (CallFetchPage 7) (pool1_pinned c) = pool1_pinned (wrap_int32 (c + 1))"
  by (simp add: pool1_pinned_explicit FetchPageImpl_def Pin_def)

lemma pool1_pinned_fold:
  "0 \<le> c \<Longrightarrow> c + int n < 2147483648 \<Longrightarrow>
   fold bpm_step (replicate n (CallFetchPage 7)) (pool1_pinned c) = pool1_pinned (c + int n)"
proof (induction n arbitrary: c)
  case 0
  then show ?case by simp
next
  case (Suc n)
  from Suc.prems have "is_int32 (c + 1)" by (simp add: is_int32_def)
  then have w: "wrap_int32 (c + 1) = c + 1" by (rule wrap_int32_id)
  from Suc.prems have "0 \<le> c + 1" and "c + 1 + int n < 2147483648" by simp_all
  then have ih: "fold bpm_step (replicate n (CallFetchPage 7)) (pool1_pinned (c + 1)) =
    pool1_pinned (c + 1 + int n)" by (rule Suc.IH)
  have "fold bpm_step (replicate (Suc n) (CallFetchPage 7)) (pool1_pinned c) =
    fold bpm_step (replicate n (CallFetchPage 7)) (bpm_step (CallFetchPage 7) (pool1_pinned c))"
    by (simp only: replicate_Suc fold_simps)
  also have "\<dots> = pool1_pinned (c + 1 + int n)"
    by (simp only: pool1_pinned_fetch w ih)
  also have "c + 1 + int n = c + int (Suc n)" by simp
  finally show ?case .
qed

lemma pool1_saturated:
  "bpm_run (replicate 2147483647 (CallFetchPage 7)) pool1 = pool1_pinned 2147483647"
proof -
  have "(2147483647 :: nat) = Suc 2147483646" by simp
  then have "bpm_run (replicate 2147483647 (CallFetchPage 7)) pool1 =
    fold bpm_step (replicate (Suc 2147483646) (CallFetchPage 7)) pool1"
    by (simp only: bpm_run_def)
  also have "\<dots> =
    fold bpm_step (replicate 2147483646 (CallFetchPage 7)) (pool1_pinned 1)"
    by (simp only: replicate_Suc fold_simps pool1_fetched_pinned)
  also have "\<dots> = pool1_pinned (1 + int 2147483646)"
    by (rule pool1_pinned_fold) simp_all
  also have "1 + int 2147483646 = 2147483647" by simp
  finally show ?thesis .
qed

text \<open>
  Claim C9, as stated, fails at that state: page 7 is resident with pin count 2147483647,
  the Fetch is a hit whose increment overflows to -2147483648, and the Unpin that follows
  finds a count that is not positive, returns false and leaves the count where the overflow
  put it.
\<close>

theorem Fetch_Unpin_round_trip_counterexample:
  "bpm_run (replicate 2147483647 (CallFetchPage 7)) pool1 = pool1_pinned 2147483647 \<and>
   map_of (page_table (pool1_pinned 2147483647)) 7 = Some 0 \<and>
   pin_count (pages (pool1_pinned 2147483647) ! 0) = 2147483647 \<and>
   fst (FetchPageImpl (pool1_pinned 2147483647) 7) = Some 0 \<and>
   fst (UnpinPageImpl (snd (FetchPageImpl (pool1_pinned 2147483647) 7)) 7 False) = False \<and>
   pin_count (pages (snd (UnpinPageImpl (snd (FetchPageImpl (pool1_pinned 2147483647) 7)) 7
     False)) ! 0) = - 2147483648"
proof -
  have "map_of (page_table (pool1_pinned 2147483647)) 7 = Some 0 \<and>
   pin_count (pages (pool1_pinned 2147483647) ! 0) = 2147483647 \<and>
   fst (FetchPageImpl (pool1_pinned 2147483647) 7) = Some 0 \<and>
   fst (UnpinPageImpl (snd (FetchPageImpl (pool1_pinned 2147483647) 7)) 7 False) = False \<and>
   pin_count (pages (snd (UnpinPageImpl (snd (FetchPageImpl (pool1_pinned 2147483647) 7)) 7
     False)) ! 0) = - 2147483648"
    by code_simp
  with pool1_saturated show ?thesis by simp
qed

section \<open>Where the code departs from the specification\<close>

text \<open>
  Claim C1. The claim says that NewPage succeeds whenever some frame is unpinned, as on a
  freshly constructed pool. The code's test is inverted: on a fresh pool of one frame, whose
  free list holds frame 0 with pin count 0, NewPage returns null and changes nothing.
\<close>

theorem NewPageImpl_fresh_pool_null:
  "free_list pool1 = [0] \<and> pin_count (pages pool1 ! 0) = 0 \<and> NewPageImpl pool1 = (None, pool1)"
  by code_simp

text \<open>
  Claim C2 (scenario 6 of the spec). With three frames, pages 10, 20 and 30 are fetched and
  unpinned in order. The Fetch of page 40 that follows misses; the claim says it succeeds in
  the frame that held page 10, but the code returns null: the free list is empty and the
  replacer tracks no frame.
\<close>

theorem FetchPageImpl_no_eviction:
  "map_of (page_table (bpm_run [CallFetchPage 10, CallUnpinPage 10 False,
                                 CallFetchPage 20, CallUnpinPage 20 False,
                                 CallFetchPage 30, CallUnpinPage 30 False] pool3)) 40 = None \<and>
   fst (FetchPageImpl (bpm_run [CallFetchPage 10, CallUnpinPage 10 False,
                                CallFetchPage 20, CallUnpinPage 20 False,
                                CallFetchPage 30, CallUnpinPage 30 False] pool3) 40) = None"
  by code_simp

text \<open>
  Claim C3. After Fetch of page 7 and its Unpin on a pool of one frame, the Unpin has taken
  the pin count of frame 0 from 1 to 0 and page 7 is still resident there, but frame 0 is
  not in the replacer's eligible list, which is empty.
\<close>

theorem unpinned_frame_not_eligible:
  "pin_count (pages pool1_fetched ! 0) = 1 \<and>
   pool1_unpinned = snd (UnpinPageImpl pool1_fetched 7 False) \<and>
   map_of (page_table pool1_unpinned) 7 = Some 0 \<and>
   pin_count (pages pool1_unpinned ! 0) = 0 \<and>
   0 \<notin> set (used_list (replacer pool1_unpinned)) \<and>
   used_list (replacer pool1_unpinned) = []"
  by code_simp

text \<open>
  Claim C5, as stated, fails when a client fetches the reserved id: on a pool of two frames,
  Fetch of \<open>INVALID_PAGE_ID\<close> binds frame 0 under that key, and the next Fetch, taking the
  free frame 1 whose page id is still \<open>INVALID_PAGE_ID\<close>, erases that entry. The free list
  is then empty and the page table has one entry.
\<close>

theorem count_invariant_counterexample:
  "length (free_list (bpm_run [CallFetchPage INVALID_PAGE_ID, CallFetchPage 5] pool2)) +
   length (page_table (bpm_run [CallFetchPage INVALID_PAGE_ID, CallFetchPage 5] pool2))
   \<noteq> pool_size (bpm_run [CallFetchPage INVALID_PAGE_ID, CallFetchPage 5] pool2)"
  by code_simp

section \<open>The frame count\<close>

lemma Pin_untracked: "map_keys r = {} \<Longrightarrow> Pin r f = r"
  by (simp add: Pin_def)

lemma Unpin_untracked: "pinned r = {} \<Longrightarrow> Unpin r f = r"
  by (simp add: Unpin_def)

lemma Victim_empty: "used_list r = [] \<Longrightarrow> Victim r = (None, r)"
  by (simp add: Victim_def)

lemma accounted_new: "frames_accounted (BufferPoolManager_new psz n d)"
  by (simp add: frames_accounted_def BufferPoolManager_new_def LRUReplacer_new_def Page_new_def)

lemma write_back_page_id [simp]:
  "page_id (pages (write_back s f) ! i) = page_id (pages s ! i)"
  by (cases "f < length (pages s)"; cases "i = f")
    (simp_all add: write_back_def list_update_beyond)

lemma write_back_pin_count [simp]:
  "pin_count (pages (write_back s f) ! i) = pin_count (pages s ! i)"
  by (cases "f < length (pages s)"; cases "i = f")
    (simp_all add: write_back_def list_update_beyond)

lemma accounted_write_back: "frames_accounted s \<Longrightarrow> frames_accounted (write_back s f)"
  by (simp add: frames_accounted_def)

lemma pt_erase_absent: "\<forall>e \<in> set pt. fst e \<noteq> p \<Longrightarrow> pt_erase pt p = pt"
  by (simp add: pt_erase_def)

lemma pt_erase_length:
  "distinct (map fst pt) \<Longrightarrow> map_of pt p = Some f \<Longrightarrow> Suc (length (pt_erase pt p)) = length pt"
proof (induction pt)
  case Nil
  then show ?case by simp
next
  case (Cons e pt)
  show ?case
  proof (cases "fst e = p")
    case True
    from Cons.prems(1) have "fst e \<notin> fst ` set pt" by simp
    with True have "\<forall>x \<in> set pt. fst x \<noteq> p" by (metis imageI)
    then have "filter (\<lambda>e. fst e \<noteq> p) pt = pt" by (simp add: filter_id_conv)
    with True show ?thesis by (simp add: pt_erase_def)
  next
    case False
    with Cons.prems(2) have "map_of pt p = Some f" by (cases e) (simp split: if_splits)
    with Cons.IH Cons.prems(1) False show ?thesis by (simp add: pt_erase_def)
  qed
qed

lemma pt_erase_subset: "set (pt_erase pt p) \<subseteq> set pt"
  by (auto simp add: pt_erase_def)

lemma pt_erase_distinct_fst: "distinct (map fst pt) \<Longrightarrow> distinct (map fst (pt_erase pt p))"
  by (simp add: pt_erase_def distinct_map_filter)

lemma pt_erase_distinct_snd: "distinct (map snd pt) \<Longrightarrow> distinct (map snd (pt_erase pt p))"
  by (simp add: pt_erase_def distinct_map_filter)

lemma pt_erase_frame_gone:
  "distinct (map snd pt) \<Longrightarrow> map_of pt p = Some f \<Longrightarrow> e \<in> set (pt_erase pt p) \<Longrightarrow> snd e \<noteq> f"
proof -
  assume d: "distinct (map snd pt)" and m: "map_of pt p = Some f" and e: "e \<in> set (pt_erase pt p)"
  from m have pf: "(p, f) \<in> set pt" by (rule map_of_SomeD)
  from e have e1: "e \<in> set pt" and e2: "fst e \<noteq> p" by (auto simp add: pt_erase_def)
  from d have inj: "inj_on snd (set pt)" by (simp add: distinct_map)
  show ?thesis
  proof
    assume "snd e = f"
    with inj pf e1 have "e = (p, f)" by (auto simp add: inj_on_def)
    with e2 show False by simp
  qed
qed

lemma accounted_bind_fetched:
  assumes acc: "frames_accounted s" and fl: "free_list s = f # rest"
    and miss: "map_of (page_table s) p = None" and p: "p \<noteq> INVALID_PAGE_ID"
  shows "frames_accounted (bind_fetched (s\<lparr>free_list := rest\<rparr>) f p)"
proof -
  let ?s1 = "s\<lparr>free_list := rest\<rparr>"
  from acc fl have f: "f < length (pages s)" "page_id (pages s ! f) = INVALID_PAGE_ID"
    "f \<notin> set rest" "distinct rest"
    by (simp_all add: frames_accounted_def)
  from acc have keys: "\<forall>e \<in> set (page_table s). fst e \<noteq> INVALID_PAGE_ID"
    by (simp add: frames_accounted_def)
  have er: "pt_erase (page_table s) INVALID_PAGE_ID = page_table s"
    using keys by (simp add: pt_erase_absent)
  from miss have pk: "p \<notin> fst ` set (page_table s)" by (simp add: map_of_eq_None_iff)
  from acc fl have fk: "f \<notin> snd ` set (page_table s)"
    by (auto simp add: frames_accounted_def)
  have len: "length (pages (write_back ?s1 f)) = length (pages s)" by simp
  have other: "\<And>g. g \<in> set rest \<Longrightarrow> f \<noteq> g" using f(3) by auto
  from acc fl f pk fk miss p show ?thesis
    unfolding bind_fetched_def Let_def
    by (auto simp add: frames_accounted_def pt_emplace_def Pin_untracked other er)
qed


lemma accounted_resident_not_free:
  "frames_accounted s \<Longrightarrow> map_of (page_table s) p = Some f \<Longrightarrow>
   f < length (pages s) \<and> f \<notin> set (free_list s)"
  by (auto simp add: frames_accounted_def dest!: map_of_SomeD)

lemma accounted_Fetch:
  assumes acc: "frames_accounted s" and p: "p \<noteq> INVALID_PAGE_ID"
  shows "frames_accounted (snd (FetchPageImpl s p))"
proof (cases "map_of (page_table s) p")
  case (Some f)
  from accounted_resident_not_free [OF acc Some]
  have other: "\<And>g. g \<in> set (free_list s) \<Longrightarrow> f \<noteq> g" by auto
  from acc show ?thesis
    by (simp add: FetchPageImpl_hit [OF Some] frames_accounted_def Pin_untracked other)
next
  case None
  show ?thesis
  proof (cases "free_list s")
    case Nil
    with acc have "pick_frame s = (None, s)"
      by (simp add: pick_frame_def frames_accounted_def Victim_empty)
    with None acc show ?thesis by (simp add: FetchPageImpl_def)
  next
    case (Cons f rest)
    then have "pick_frame s = (Some f, s\<lparr>free_list := rest\<rparr>)" by (simp add: pick_frame_def)
    with None accounted_bind_fetched [OF acc Cons None p] show ?thesis
      by (simp add: FetchPageImpl_def)
  qed
qed

lemma accounted_Unpin:
  assumes acc: "frames_accounted s"
  shows "frames_accounted (snd (UnpinPageImpl s p dirty))"
proof (cases "map_of (page_table s) p")
  case None
  with acc show ?thesis by (simp add: UnpinPageImpl_def)
next
  case (Some f)
  from accounted_resident_not_free [OF acc Some]
  have other: "\<And>g. g \<in> set (free_list s) \<Longrightarrow> f \<noteq> g" by auto
  from acc Some show ?thesis
    by (simp add: UnpinPageImpl_def Let_def frames_accounted_def Unpin_untracked other)
qed

lemma accounted_Flush:
  assumes acc: "frames_accounted s"
  shows "frames_accounted (snd (FlushPageImpl s p))"
proof (cases "map_of (page_table s) p")
  case None
  with acc show ?thesis by (simp add: FlushPageImpl_def)
next
  case (Some f)
  from accounted_resident_not_free [OF acc Some]
  have other: "\<And>g. g \<in> set (free_list s) \<Longrightarrow> f \<noteq> g" by auto
  from acc Some show ?thesis
    by (simp add: FlushPageImpl_def frames_accounted_def other)
qed

lemma all_pinned_scan_positive:
  "all_pinned_scan ps is \<Longrightarrow> i \<in> set is \<Longrightarrow> 0 < pin_count (ps ! i)"
  by (induction "is") (auto split: if_splits)

lemma accounted_New_unchanged:
  assumes acc: "frames_accounted s"
  shows "NewPageImpl s = (None, s)"
proof (cases "all_pinned_scan (pages s) [0..<pool_size s]")
  case False
  then show ?thesis by (simp add: NewPageImpl_def)
next
  case True
  have "free_list s = []"
  proof (cases "free_list s")
    case Nil
    then show ?thesis .
  next
    case (Cons f rest)
    with acc have "f < pool_size s" and "pin_count (pages s ! f) \<le> 0"
      by (simp_all add: frames_accounted_def)
    with all_pinned_scan_positive [OF True, of f] show ?thesis by simp
  qed
  with acc have "pick_frame s = (None, s)"
    by (simp add: pick_frame_def frames_accounted_def Victim_empty)
  with True show ?thesis by (simp add: NewPageImpl_def)
qed

lemma accounted_Delete:
  assumes acc: "frames_accounted s"
  shows "frames_accounted (snd (DeletePageImpl s p))"
proof (cases "map_of (page_table s) p")
  case None
  with acc show ?thesis by (simp add: DeletePageImpl_def)
next
  case (Some f)
  show ?thesis
  proof (cases "pin_count (pages s ! f) = 0")
    case False
    with acc Some show ?thesis by (simp add: DeletePageImpl_def)
  next
    case True
    from accounted_resident_not_free [OF acc Some]
    have f: "f < length (pages s)" "f \<notin> set (free_list s)" by auto
    then have other: "\<And>g. g \<in> set (free_list s) \<Longrightarrow> f \<noteq> g" by auto
    from acc have d1: "distinct (map fst (page_table s))" and d2: "distinct (map snd (page_table s))"
      by (simp_all add: frames_accounted_def)
    have gone: "\<And>e. e \<in> set (pt_erase (page_table s) p) \<Longrightarrow> snd e \<noteq> f"
      using pt_erase_frame_gone [OF d2 Some] .
    have sub: "\<And>e. e \<in> set (pt_erase (page_table s) p) \<Longrightarrow> e \<in> set (page_table s)"
      using pt_erase_subset by blast
    have len: "Suc (length (pt_erase (page_table s) p)) = length (page_table s)"
      using pt_erase_length [OF d1 Some] .
    from acc f True len show ?thesis
      by (auto simp add: DeletePageImpl_def [of s p] Some Let_def frames_accounted_def
          pt_erase_distinct_fst pt_erase_distinct_snd gone other ResetMemory_def
          dest: sub)
  qed
qed

lemma flush_frame_fields [simp]:
  "pool_size (flush_frame i s) = pool_size s"
  "page_table (flush_frame i s) = page_table s"
  "free_list (flush_frame i s) = free_list s"
  "replacer (flush_frame i s) = replacer s"
  "length (pages (flush_frame i s)) = length (pages s)"
  by (simp_all add: flush_frame_def)

lemma flush_frame_page_id [simp]:
  "page_id (pages (flush_frame i s) ! j) = page_id (pages s ! j)"
  by (cases "i < length (pages s)"; cases "j = i")
    (simp_all add: flush_frame_def list_update_beyond)

lemma flush_frame_pin_count [simp]:
  "pin_count (pages (flush_frame i s) ! j) = pin_count (pages s ! j)"
  by (cases "i < length (pages s)"; cases "j = i")
    (simp_all add: flush_frame_def list_update_beyond)

lemma accounted_flush_frame: "frames_accounted s \<Longrightarrow> frames_accounted (flush_frame i s)"
  by (simp add: frames_accounted_def)

lemma accounted_fold_flush: "frames_accounted s \<Longrightarrow> frames_accounted (fold flush_frame is s)"
  by (induction "is" arbitrary: s) (simp_all add: accounted_flush_frame)

lemma accounted_step:
  "frames_accounted s \<Longrightarrow> fetches_valid c \<Longrightarrow> frames_accounted (bpm_step c s)"
  by (cases c)
    (simp_all add: accounted_Fetch accounted_Unpin accounted_Flush accounted_New_unchanged
      accounted_Delete FlushAllPagesImpl_def accounted_fold_flush)

lemma accounted_fold:
  "frames_accounted s \<Longrightarrow> \<forall>c \<in> set cs. fetches_valid c \<Longrightarrow> frames_accounted (fold bpm_step cs s)"
  by (induction cs arbitrary: s) (simp_all add: accounted_step)

lemma bind_fetched_pool_size: "pool_size (bind_fetched s f p) = pool_size s"
  by (simp add: bind_fetched_def Let_def)

lemma bind_new_pool_size: "pool_size (snd (bind_new s f)) = pool_size s"
  by (simp add: bind_new_def Let_def)

lemma pool_size_Fetch: "pool_size (snd (FetchPageImpl s p)) = pool_size s"
proof (cases "map_of (page_table s) p")
  case (Some f)
  then show ?thesis by (simp add: FetchPageImpl_hit)
next
  case None
  then show ?thesis
    by (cases "fst (pick_frame s)")
      (simp_all add: FetchPageImpl_no_frame FetchPageImpl_miss bind_fetched_pool_size)
qed

lemma pool_size_Unpin: "pool_size (snd (UnpinPageImpl s p dirty)) = pool_size s"
  by (simp add: UnpinPageImpl_def Let_def split: option.splits)

lemma pool_size_Flush: "pool_size (snd (FlushPageImpl s p)) = pool_size s"
  by (simp add: FlushPageImpl_def split: option.splits)

lemma pool_size_New: "pool_size (snd (NewPageImpl s)) = pool_size s"
proof (cases "all_pinned_scan (pages s) [0..<pool_size s]")
  case False
  then show ?thesis by (simp add: NewPageImpl_some_unpinned)
next
  case True
  then show ?thesis
    by (cases "fst (pick_frame s)")
      (simp_all add: NewPageImpl_no_frame NewPageImpl_bind bind_new_pool_size)
qed

lemma pool_size_Delete: "pool_size (snd (DeletePageImpl s p)) = pool_size s"
  by (simp add: DeletePageImpl_def Let_def split: option.splits)

lemma pool_size_fold_flush: "pool_size (fold flush_frame is s) = pool_size s"
  by (induction "is" arbitrary: s) simp_all

lemma pool_size_step: "pool_size (bpm_step c s) = pool_size s"
  by (cases c)
    (simp_all add: pool_size_Fetch pool_size_Unpin pool_size_Flush pool_size_New
      pool_size_Delete FlushAllPagesImpl_def pool_size_fold_flush)

lemma pool_size_run: "pool_size (bpm_run cs s) = pool_size s"
  unfolding bpm_run_def by (induction cs arbitrary: s) (simp_all add: pool_size_step)

lemma NewPageImpl_unpinned_frame_null:
  assumes "i < pool_size s" and "pin_count (pages s ! i) \<le> 0"
  shows "NewPageImpl s = (None, s)"
proof -
  have "\<not> all_pinned_scan (pages s) [0..<pool_size s]"
    using all_pinned_scan_positive [of "pages s" "[0..<pool_size s]" i] assms by auto
  then show ?thesis by (rule NewPageImpl_some_unpinned)
qed

lemma FetchPageImpl_full_pool_null:
  assumes "frames_accounted s" and "map_of (page_table s) p = None" and "free_list s = []"
  shows "FetchPageImpl s p = (None, s)"
proof -
  from assms(1,3) have "pick_frame s = (None, s)"
    by (simp add: pick_frame_def frames_accounted_def Victim_empty)
  with assms(2) show ?thesis by (simp add: FetchPageImpl_def)
qed

text \<open>
  Claim C5, amended. For every sequence of client calls on a freshly constructed pool in
  which no Fetch is given \<open>INVALID_PAGE_ID\<close> (the other calls may be given any page id),
  the number of frames on the free list plus the number of page-table entries equals
  \<open>pool_size\<close> after the sequence, hence after each of its calls.
\<close>

theorem free_plus_table_is_pool_size:
  assumes "\<forall>c \<in> set cs. fetches_valid c"
  shows "length (free_list (bpm_run cs (BufferPoolManager_new psz n d))) +
         length (page_table (bpm_run cs (BufferPoolManager_new psz n d))) =
           pool_size (bpm_run cs (BufferPoolManager_new psz n d)) \<and>
         pool_size (bpm_run cs (BufferPoolManager_new psz n d)) = n"
proof -
  have "frames_accounted (bpm_run cs (BufferPoolManager_new psz n d))"
    unfolding bpm_run_def using accounted_new assms by (rule accounted_fold)
  moreover have "pool_size (BufferPoolManager_new psz n d) = n"
    by (simp add: BufferPoolManager_new_def)
  ultimately show ?thesis
    by (simp add: frames_accounted_def pool_size_run)
qed

theorem free_plus_table_is_pool_size_witness:
  "list_all fetches_valid busy_calls \<and>
   length (free_list (bpm_run busy_calls (BufferPoolManager_new 2 2 DiskManager_new))) +
   length (page_table (bpm_run busy_calls (BufferPoolManager_new 2 2 DiskManager_new))) =
     pool_size (bpm_run busy_calls (BufferPoolManager_new 2 2 DiskManager_new)) \<and>
   pool_size (bpm_run busy_calls (BufferPoolManager_new 2 2 DiskManager_new)) = 2"
proof -
  have h: "\<forall>c \<in> set busy_calls. fetches_valid c" by code_simp
  then have "list_all fetches_valid busy_calls" by (simp add: list_all_iff)
  with free_plus_table_is_pool_size [OF h, of 2 2 DiskManager_new] show ?thesis by blast
qed

end
